theory Spec2Isabelle
  imports Main "HOL-Library.Sublist"
begin

section \<open>Data model\<close>

text \<open>
  Values decoded from a JSON body, as Python's \<open>json\<close> module hands them to the program:
  \<open>None\<close>, \<open>bool\<close>, \<open>int\<close>, \<open>str\<close>, \<open>list\<close> and \<open>dict\<close>. A \<open>JObj\<close> holds the
  entries of the dict in insertion order; \<open>dict.get\<close> is \<open>map_of\<close>. Numbers are integers
  (floating-point values are outside this model). Strings are lists of
  characters, exact for ASCII text; \<open>str.lower\<close>, which is defined on all of Unicode, is
  a parameter of the functions that call it.
\<close>

datatype json =
    JNull
  | JBool bool
  | JInt int
  | JStr string
  | JArr "json list"
  | JObj "(string \<times> json) list"

text \<open>A query-parameter value: \<open>list_issues\<close> passes strings and the integer \<open>limit\<close>.\<close>

datatype pval = PStr string | PInt int

type_synonym params = "(string \<times> pval) list"

text \<open>
  What the program reads of a \<open>requests.Response\<close>: the status code, the raw body, the
  value \<open>response.json()\<close> decodes from it (\<open>None\<close> when the body is not JSON), and
  \<open>response.links\<close>, a dict from relation name to the dict of that link's attributes.
\<close>

record response =
  status_code :: int
  body :: string
  json_body :: "json option"
  links :: "(string \<times> (string \<times> string) list) list"

text \<open>The exceptions the modelled code can raise.\<close>

datatype error =
    HTTPError response
  | RequestException string
  | JSONDecodeError
  | TypeError
  | KeyError string
  | AttributeError
  | ValueError string
  | SystemExit int

text \<open>One call of \<open>requests.get(url, headers=..., params=...)\<close>.\<close>

record request =
  req_url :: string
  req_headers :: "(string \<times> string) list"
  req_params :: "params option"

text \<open>
  The remote API: given the requests issued before and the current request, the library
  hands back a response or raises (a connection failure). The list of requests issued so
  far is the only state the network calls touch; it is threaded through every operation.
\<close>

type_synonym server = "request list \<Rightarrow> request \<Rightarrow> error + response"

record client =
  base_url :: string
  auth_token :: string
  org_slug :: string
  headers :: "(string \<times> string) list"

section \<open>Authenticated request executor\<close>

text \<open>\<open>SentryClient.__init__\<close>.\<close>

definition SentryClient :: "string \<Rightarrow> string \<Rightarrow> string \<Rightarrow> client" where
  "SentryClient token org url =
     \<lparr>base_url = url, auth_token = token, org_slug = org,
      headers = [(''Authorization'', ''Bearer '' @ token),
                 (''Content-Type'', ''application/json'')]\<rparr>"

definition default_base_url :: string where
  "default_base_url = ''https://sentry.io/api/0''"

text \<open>
  \<open>response.raise_for_status()\<close> of the requests library: it raises \<open>HTTPError\<close>, holding
  the response, when \<open>400 <= status_code < 600\<close>, and returns otherwise.
\<close>

definition raise_for_status :: "response \<Rightarrow> error + unit" where
  "raise_for_status r =
     (if 400 \<le> status_code r \<and> status_code r < 600 then Inl (HTTPError r) else Inr ())"

text \<open>
  \<open>SentryClient._get\<close>: one \<open>requests.get\<close>, then \<open>raise_for_status\<close>. The request is
  appended to the log whether or not the call succeeds.
\<close>

definition get ::
  "server \<Rightarrow> client \<Rightarrow> string \<Rightarrow> params option \<Rightarrow> request list
     \<Rightarrow> (error + response) \<times> request list" where
  "get srv c url ps log =
     (let rq = \<lparr>req_url = url, req_headers = headers c, req_params = ps\<rparr>;
          log' = log @ [rq]
      in case srv log rq of
           Inl e \<Rightarrow> (Inl e, log')
         | Inr response \<Rightarrow>
             (case raise_for_status response of
                Inl e \<Rightarrow> (Inl e, log')
              | Inr _ \<Rightarrow> (Inr response, log')))"


section \<open>Cursor pagination walker\<close>

text \<open>\<open>response.json()\<close>: the decoded body, or \<open>JSONDecodeError\<close>.\<close>

definition response_json :: "response \<Rightarrow> error + json" where
  "response_json r = (case json_body r of None \<Rightarrow> Inl JSONDecodeError | Some j \<Rightarrow> Inr j)"

text \<open>
  \<open>all_items.extend(x)\<close>: a list is appended element by element, a dict contributes its
  keys, a string its characters; \<open>None\<close>, a bool and a number are not iterable.
\<close>

fun list_extend :: "json list \<Rightarrow> json \<Rightarrow> error + json list" where
  "list_extend acc (JArr xs) = Inr (acc @ xs)"
| "list_extend acc (JObj kvs) = Inr (acc @ map (\<lambda>kv. JStr (fst kv)) kvs)"
| "list_extend acc (JStr s) = Inr (acc @ map (\<lambda>ch. JStr [ch]) s)"
| "list_extend acc _ = Inl TypeError"

text \<open>The local variables of \<open>_get_paginated\<close>, with the log of requests issued.\<close>

record session =
  cur_url :: string
  cur_params :: "params option"
  all_items :: "json list"
  page_count :: int
  sent :: "request list"

text \<open>
  One pass through the body of the \<open>while\<close> loop: it falls through to the next test of
  the loop condition, leaves the loop by \<open>break\<close>, or raises.
\<close>

datatype step = Continue session | Break session | Raise error "request list"

definition loop_body :: "server \<Rightarrow> client \<Rightarrow> int option \<Rightarrow> session \<Rightarrow> step" where
  "loop_body srv c max_pages s =
     (case get srv c (cur_url s) (cur_params s) (sent s) of
        (Inl e, lg) \<Rightarrow> Raise e lg
      | (Inr response, lg) \<Rightarrow>
          (case response_json response of
             Inl e \<Rightarrow> Raise e lg
           | Inr j \<Rightarrow>
               (case list_extend (all_items s) j of
                  Inl e \<Rightarrow> Raise e lg
                | Inr items \<Rightarrow>
                    (let s1 = s\<lparr>all_items := items, sent := lg\<rparr> in
                     case map_of (links response) ''next'' of
                       None \<Rightarrow> Break s1
                     | Some nxt \<Rightarrow>
                         if map_of nxt ''results'' = Some ''true'' then
                           (case map_of nxt ''url'' of
                              None \<Rightarrow> Raise (KeyError ''url'') lg
                            | Some u \<Rightarrow>
                                (let s2 = s1\<lparr>cur_url := u, cur_params := None,
                                               page_count := page_count s1 + 1\<rparr> in
                                 case max_pages of
                                   None \<Rightarrow> Continue s2
                                 | Some m \<Rightarrow>
                                     if m \<noteq> 0 \<and> m \<le> page_count s2 then Break s2
                                     else Continue s2))
                         else Break s1))))"

text \<open>
  The loop \<open>while url: ...\<close> followed by \<open>return all_items\<close>. It need not terminate:
  \<open>None\<close> is the run that never returns.
\<close>

partial_function (option) while_loop ::
  "server \<Rightarrow> client \<Rightarrow> int option \<Rightarrow> session \<Rightarrow> ((error + json list) \<times> request list) option"
where
  "while_loop srv c max_pages s =
     (if cur_url s = [] then Some (Inr (all_items s), sent s)
      else case loop_body srv c max_pages s of
             Continue s' \<Rightarrow> while_loop srv c max_pages s'
           | Break s' \<Rightarrow> Some (Inr (all_items s'), sent s')
           | Raise e lg \<Rightarrow> Some (Inl e, lg))"

declare while_loop.simps [code]

text \<open>\<open>SentryClient._get_paginated\<close>.\<close>

definition get_paginated ::
  "server \<Rightarrow> client \<Rightarrow> string \<Rightarrow> params option \<Rightarrow> int option \<Rightarrow> request list
     \<Rightarrow> ((error + json list) \<times> request list) option" where
  "get_paginated srv c url ps max_pages lg =
     while_loop srv c max_pages
       \<lparr>cur_url = url, cur_params = ps, all_items = [], page_count = 0, sent = lg\<rparr>"


section \<open>Python's string operations\<close>

text \<open>\<open>a in b\<close> on strings: \<open>a\<close> occurs in \<open>b\<close> as a contiguous run.\<close>

fun contains :: "string \<Rightarrow> string \<Rightarrow> bool" where
  "contains a [] = (a = [])"
| "contains a (y # ys) = (prefix a (y # ys) \<or> contains a ys)"

text \<open>\<open>sep.join(parts)\<close>.\<close>

fun join :: "string \<Rightarrow> string list \<Rightarrow> string" where
  "join sep [] = []"
| "join sep [x] = x"
| "join sep (x # y # ys) = x @ sep @ join sep (y # ys)"

text \<open>\<open>str(n)\<close> for an integer: decimal digits, with a minus sign when negative.\<close>

definition digit_char :: "nat \<Rightarrow> char" where
  "digit_char n = char_of (48 + n)"

function str_nat :: "nat \<Rightarrow> string" where
  "str_nat n = (if n < 10 then [digit_char n] else str_nat (n div 10) @ [digit_char (n mod 10)])"
  by pat_completeness auto
termination
  by (relation "measure id") auto

definition str_int :: "int \<Rightarrow> string" where
  "str_int i = (if i < 0 then CHR ''-'' # str_nat (nat (- i)) else str_nat (nat i))"

text \<open>
  \<open>repr(s)\<close> for an ASCII string: single quotes, unless the string holds a single quote
  and no double quote; the backslash and the chosen quote are escaped, newline, carriage
  return and tab get their letter, other control characters \<open>\xNN\<close>.
\<close>

definition hex_digit :: "nat \<Rightarrow> char" where
  "hex_digit n = (if n < 10 then char_of (48 + n) else char_of (87 + n))"

definition repr_char :: "char \<Rightarrow> char \<Rightarrow> string" where
  "repr_char q ch =
     (let n = (of_char ch :: nat) in
      if ch = CHR 0x5C then [CHR 0x5C, CHR 0x5C]
      else if ch = q then [CHR 0x5C, q]
      else if n = 10 then [CHR 0x5C, CHR ''n'']
      else if n = 13 then [CHR 0x5C, CHR ''r'']
      else if n = 9 then [CHR 0x5C, CHR ''t'']
      else if n < 32 \<or> n = 127 then
        [CHR 0x5C, CHR ''x'', hex_digit (n div 16), hex_digit (n mod 16)]
      else [ch])"

definition repr_str :: "string \<Rightarrow> string" where
  "repr_str s =
     (let q = (if CHR 0x27 \<in> set s \<and> CHR 0x22 \<notin> set s then CHR 0x22 else CHR 0x27)
      in [q] @ concat (map (repr_char q) s) @ [q])"

text \<open>\<open>repr(x)\<close> and \<open>str(x)\<close> of a decoded JSON value.\<close>

fun repr_json :: "json \<Rightarrow> string" where
  "repr_json JNull = ''None''"
| "repr_json (JBool b) = (if b then ''True'' else ''False'')"
| "repr_json (JInt i) = str_int i"
| "repr_json (JStr s) = repr_str s"
| "repr_json (JArr xs) = ''['' @ join '', '' (map repr_json xs) @ '']''"
| "repr_json (JObj kvs) =
     ''{'' @ join '', '' (map (\<lambda>kv. repr_str (fst kv) @ '': '' @ repr_json (snd kv)) kvs) @ ''}''"

fun str_json :: "json \<Rightarrow> string" where
  "str_json (JStr s) = s"
| "str_json x = repr_json x"

section \<open>Local predicate filter\<close>

text \<open>\<open>x.get(key, default)\<close>: only a dict has the method.\<close>

fun dict_get :: "json \<Rightarrow> string \<Rightarrow> json \<Rightarrow> error + json" where
  "dict_get (JObj kvs) k d = Inr (case map_of kvs k of None \<Rightarrow> d | Some v \<Rightarrow> v)"
| "dict_get _ k d = Inl AttributeError"

text \<open>
  \<open>x.lower()\<close>: only a string has the method. Python's \<open>str.lower\<close> follows the
  Unicode case mapping; it is the parameter \<open>lower\<close> of the functions below.
\<close>

fun str_lower :: "(string \<Rightarrow> string) \<Rightarrow> json \<Rightarrow> error + string" where
  "str_lower lower (JStr s) = Inr (lower s)"
| "str_lower lower _ = Inl AttributeError"

text \<open>\<open>needle in field.lower()\<close> for a field read with \<open>get\<close>.\<close>

definition in_lowered ::
  "(string \<Rightarrow> string) \<Rightarrow> string \<Rightarrow> error + json \<Rightarrow> error + bool" where
  "in_lowered lower needle field =
     (case field of
        Inl e \<Rightarrow> Inl e
      | Inr v \<Rightarrow>
          (case str_lower lower v of Inl e \<Rightarrow> Inl e | Inr t \<Rightarrow> Inr (contains needle t)))"

text \<open>\<open>matches_text_filter\<close>: the four tests in the order of the source.\<close>

definition matches_text_filter ::
  "(string \<Rightarrow> string) \<Rightarrow> json \<Rightarrow> string \<Rightarrow> error + bool" where
  "matches_text_filter lower issue text_filter =
     (let text_filter_lower = lower text_filter in
      case in_lowered lower text_filter_lower (dict_get issue ''title'' (JStr [])) of
        Inl e \<Rightarrow> Inl e
      | Inr True \<Rightarrow> Inr True
      | Inr False \<Rightarrow>
     (case in_lowered lower text_filter_lower (dict_get issue ''culprit'' (JStr [])) of
        Inl e \<Rightarrow> Inl e
      | Inr True \<Rightarrow> Inr True
      | Inr False \<Rightarrow>
     (case dict_get issue ''metadata'' (JObj []) of
        Inl e \<Rightarrow> Inl e
      | Inr metadata \<Rightarrow>
     (case dict_get metadata ''value'' (JStr []) of
        Inl e \<Rightarrow> Inl e
      | Inr v \<Rightarrow>
          if contains text_filter_lower (lower (str_json v)) then Inr True
          else
     (case dict_get metadata ''type'' (JStr []) of
        Inl e \<Rightarrow> Inl e
      | Inr t \<Rightarrow>
          if contains text_filter_lower (lower (str_json t)) then Inr True
          else Inr False)))))"

text \<open>
  The comprehension \<open>[issue for issue in issues if matches_text_filter(issue, f)]\<close> over
  the elements of a list: the first exception ends it.
\<close>

fun filter_issues ::
  "(string \<Rightarrow> string) \<Rightarrow> json list \<Rightarrow> string \<Rightarrow> error + json list" where
  "filter_issues lower [] f = Inr []"
| "filter_issues lower (issue # issues) f =
     (case matches_text_filter lower issue f of
        Inl e \<Rightarrow> Inl e
      | Inr b \<Rightarrow>
          (case filter_issues lower issues f of
             Inl e \<Rightarrow> Inl e
           | Inr rest \<Rightarrow> Inr (if b then issue # rest else rest)))"

section \<open>Query composer and the \<open>fetch-issues\<close> command\<close>

text \<open>
  The arguments \<open>cmd_fetch_issues\<close> reads up to the point where the issues are handed to
  the output code. An option that was not given on the command line is \<open>None\<close>.
\<close>

record args =
  project :: string
  environment :: "string option"
  start_at :: "string option"
  end_at :: "string option"
  query :: "string option"
  text_filter :: "string option"
  stats_period :: "string option"
  limit :: int
  sort :: string

text \<open>Python's truth value of an optional string: \<open>None\<close> and \<open>''\<close> are false.\<close>

fun truthy :: "string option \<Rightarrow> bool" where
  "truthy None = False"
| "truthy (Some s) = (s \<noteq> [])"

text \<open>
  The lines of \<open>cmd_fetch_issues\<close> that build the query. The two functions of the
  \<open>datetime\<close> library are parameters: \<open>fromisoformat\<close> parses a string into a datetime or
  raises \<open>ValueError\<close> (\<open>None\<close> here), \<open>isoformat\<close> prints a datetime.
\<close>

definition build_query ::
  "(string \<Rightarrow> 'dt option) \<Rightarrow> ('dt \<Rightarrow> string) \<Rightarrow> args \<Rightarrow> error + string option" where
  "build_query fromisoformat isoformat a =
     (let query_parts = [];
          query_parts =
            (if truthy (environment a)
             then query_parts @ [''environment:'' @ the (environment a)] else query_parts)
      in case (if truthy (start_at a)
               then (case fromisoformat (the (start_at a)) of
                       None \<Rightarrow> Inl (ValueError (the (start_at a)))
                     | Some start_dt \<Rightarrow>
                         Inr (query_parts @ [''firstSeen:>'' @ isoformat start_dt @ ''Z'']))
               else Inr query_parts) of
           Inl e \<Rightarrow> Inl e
         | Inr query_parts \<Rightarrow>
        (case (if truthy (end_at a)
               then (case fromisoformat (the (end_at a)) of
                       None \<Rightarrow> Inl (ValueError (the (end_at a)))
                     | Some end_dt \<Rightarrow>
                         Inr (query_parts @ [''firstSeen:<'' @ isoformat end_dt @ ''Z'']))
               else Inr query_parts) of
           Inl e \<Rightarrow> Inl e
         | Inr query_parts \<Rightarrow>
             (let query_parts =
                    (if truthy (query a) then query_parts @ [the (query a)] else query_parts)
              in Inr (if query_parts \<noteq> [] then Some (join '' '' query_parts) else None))))"

text \<open>\<open>SentryClient.list_issues\<close>.\<close>

definition list_issues ::
  "server \<Rightarrow> client \<Rightarrow> string option \<Rightarrow> string \<Rightarrow> int \<Rightarrow> string \<Rightarrow> string option
     \<Rightarrow> request list \<Rightarrow> (error + json) \<times> request list" where
  "list_issues srv c project_slug period lim srt qry lg =
     (let url = (if truthy project_slug
                 then base_url c @ ''/projects/'' @ org_slug c @ ''/'' @ the project_slug
                        @ ''/issues/''
                 else base_url c @ ''/organizations/'' @ org_slug c @ ''/issues/'');
          ps = [(''statsPeriod'', PStr period), (''limit'', PInt lim),
                (''sort'', PStr srt)];
          ps = (if truthy qry then ps @ [(''query'', PStr (the qry))] else ps)
      in case get srv c url (Some ps) lg of
           (Inl e, lg') \<Rightarrow> (Inl e, lg')
         | (Inr response, lg') \<Rightarrow> (response_json response, lg'))"

text \<open>The elements a \<open>for\<close> over a decoded value visits; \<open>len\<close> fails where iteration does.\<close>

definition elements :: "json \<Rightarrow> error + json list" where
  "elements j = list_extend [] j"

text \<open>
  \<open>cmd_fetch_issues\<close> up to the value it hands to the output code; \<open>lower\<close> is
  \<open>str.lower\<close>, as in \<open>matches_text_filter\<close>. A malformed date
  raises before the \<open>try\<close> block and leaves the function as \<open>ValueError\<close>; an exception
  inside the \<open>try\<close> block is reported and becomes \<open>sys.exit(1)\<close>.
\<close>

definition cmd_fetch_issues ::
  "(string \<Rightarrow> 'dt option) \<Rightarrow> ('dt \<Rightarrow> string) \<Rightarrow> (string \<Rightarrow> string) \<Rightarrow> server \<Rightarrow> args
     \<Rightarrow> client \<Rightarrow> request list \<Rightarrow> (error + json) \<times> request list" where
  "cmd_fetch_issues fromisoformat isoformat lower srv a c lg =
     (case build_query fromisoformat isoformat a of
        Inl e \<Rightarrow> (Inl e, lg)
      | Inr qry \<Rightarrow>
          (let stats = (if truthy (stats_period a) then the (stats_period a) else ''24h'')
           in case list_issues srv c (Some (project a)) stats (limit a) (sort a) qry lg of
                (Inl e, lg') \<Rightarrow> (Inl (SystemExit 1), lg')
              | (Inr issues, lg') \<Rightarrow>
                  (case elements issues of
                     Inl e \<Rightarrow> (Inl (SystemExit 1), lg')
                   | Inr xs \<Rightarrow>
                       if truthy (text_filter a) then
                         (case filter_issues lower xs (the (text_filter a)) of
                            Inl e \<Rightarrow> (Inl (SystemExit 1), lg')
                          | Inr ys \<Rightarrow> (Inr (JArr ys), lg'))
                       else (Inr issues, lg'))))"

text \<open>\<open>SentryClient.list_issue_events\<close>; the paginated result is the list of all items.\<close>

definition list_issue_events ::
  "server \<Rightarrow> client \<Rightarrow> string \<Rightarrow> int \<Rightarrow> bool \<Rightarrow> int option \<Rightarrow> request list
     \<Rightarrow> ((error + json) \<times> request list) option" where
  "list_issue_events srv c issue_id lim paginate max_pages lg =
     (let url = base_url c @ ''/issues/'' @ issue_id @ ''/events/'';
          ps = [(''limit'', PInt lim)]
      in if paginate then
           (case get_paginated srv c url (Some ps) max_pages lg of
              None \<Rightarrow> None
            | Some (Inl e, lg') \<Rightarrow> Some (Inl e, lg')
            | Some (Inr items, lg') \<Rightarrow> Some (Inr (JArr items), lg'))
         else
           (case get srv c url (Some ps) lg of
              (Inl e, lg') \<Rightarrow> Some (Inl e, lg')
            | (Inr response, lg') \<Rightarrow> Some (response_json response, lg')))"

section \<open>Vocabulary of the properties\<close>

text \<open>The request \<open>_get\<close> sends for a URL and parameters.\<close>

definition mk_request :: "client \<Rightarrow> string \<Rightarrow> params option \<Rightarrow> request" where
  "mk_request c url ps = \<lparr>req_url = url, req_headers = headers c, req_params = ps\<rparr>"

text \<open>The response carries a next link whose \<open>results\<close> attribute is the string \<open>true\<close>.\<close>

definition has_more :: "response \<Rightarrow> bool" where
  "has_more r =
     (case map_of (links r) ''next'' of
        None \<Rightarrow> False
      | Some nxt \<Rightarrow> map_of nxt ''results'' = Some ''true'')"

definition next_url :: "response \<Rightarrow> string option" where
  "next_url r =
     (case map_of (links r) ''next'' of None \<Rightarrow> None | Some nxt \<Rightarrow> map_of nxt ''url'')"

text \<open>The items of a page: the elements of the JSON array in a response's body.\<close>

definition page_items :: "error + response \<Rightarrow> json list" where
  "page_items x =
     (case x of
        Inl _ \<Rightarrow> []
      | Inr r \<Rightarrow> (case json_body r of Some (JArr xs) \<Rightarrow> xs | _ \<Rightarrow> []))"

text \<open>The items the server returned to the \<open>i\<close>-th request of a log.\<close>

definition fetched :: "server \<Rightarrow> request list \<Rightarrow> nat \<Rightarrow> json list" where
  "fetched srv lg i = page_items (srv (take i lg) (lg ! i))"

text \<open>
  A successful page that announces a further one: no error status, an array body, a next
  link marked \<open>results="true"\<close> and a continuation URL that is not empty.
\<close>

definition more_page :: "response \<Rightarrow> bool" where
  "more_page r =
     (\<not> (400 \<le> status_code r \<and> status_code r < 600) \<and>
      (case json_body r of Some (JArr xs) \<Rightarrow> True | _ \<Rightarrow> False) \<and>
      has_more r \<and>
      (case next_url r of Some u \<Rightarrow> u \<noteq> [] | None \<Rightarrow> False))"

text \<open>The session \<open>_get_paginated\<close> starts from.\<close>

definition session0 :: "string \<Rightarrow> params option \<Rightarrow> request list \<Rightarrow> session" where
  "session0 url ps lg =
     \<lparr>cur_url = url, cur_params = ps, all_items = [], page_count = 0, sent = lg\<rparr>"

text \<open>
  \<open>advance k s\<close> is the session after \<open>k\<close> further passes through the loop body, each of
  which went on to the next test of the loop condition; \<open>None\<close> when the loop ends earlier.
\<close>

fun advance :: "server \<Rightarrow> client \<Rightarrow> int option \<Rightarrow> nat \<Rightarrow> session \<Rightarrow> session option" where
  "advance srv c max_pages 0 s = Some s"
| "advance srv c max_pages (Suc k) s =
     (if cur_url s = [] then None
      else case loop_body srv c max_pages s of
             Continue s' \<Rightarrow> advance srv c max_pages k s'
           | Break _ \<Rightarrow> None
           | Raise _ _ \<Rightarrow> None)"

text \<open>
  The loop ends in session \<open>s\<close> with outcome \<open>res\<close>: the loop condition fails, or the
  body leaves by \<open>break\<close> or by an exception.
\<close>

definition ends_with ::
  "server \<Rightarrow> client \<Rightarrow> int option \<Rightarrow> session \<Rightarrow> (error + json list) \<times> request list
     \<Rightarrow> bool" where
  "ends_with srv c max_pages s res =
     (if cur_url s = [] then res = (Inr (all_items s), sent s)
      else case loop_body srv c max_pages s of
             Continue _ \<Rightarrow> False
           | Break s' \<Rightarrow> res = (Inr (all_items s'), sent s')
           | Raise e lg \<Rightarrow> res = (Inl e, lg))"

text \<open>
  The requests \<open>new\<close> of one paginated session, issued after the log \<open>lg\<close>: all carry the
  client's headers; the first has the caller's URL and parameters; every later one has no
  parameters and the URL of the next link in the response to the request before it.
\<close>

definition session_requests ::
  "server \<Rightarrow> client \<Rightarrow> string \<Rightarrow> params option \<Rightarrow> request list \<Rightarrow> request list \<Rightarrow> bool" where
  "session_requests srv c url ps lg new =
     (\<forall>i < length new.
        req_headers (new ! i) = headers c \<and>
        (if i = 0 then req_url (new ! i) = url \<and> req_params (new ! i) = ps
         else req_params (new ! i) = None \<and>
              (case srv (lg @ take (i - 1) new) (new ! (i - 1)) of
                 Inl _ \<Rightarrow> False
               | Inr r \<Rightarrow> next_url r = Some (req_url (new ! i)))))"

text \<open>The URL and parameters session \<open>s\<close> holds for the request after \<open>new\<close>.\<close>

definition next_request ::
  "server \<Rightarrow> string \<Rightarrow> params option \<Rightarrow> request list \<Rightarrow> request list \<Rightarrow> session \<Rightarrow> bool" where
  "next_request srv url ps lg new s =
     (if new = [] then cur_url s = url \<and> cur_params s = ps
      else cur_params s = None \<and>
           (case srv (lg @ butlast new) (last new) of
              Inl _ \<Rightarrow> False
            | Inr r \<Rightarrow> next_url r = Some (cur_url s)))"

text \<open>
  The query as the specification words it: the fragments for environment, start date, end
  date and free text, each present when its criterion is set, in this order.
\<close>

definition fragments ::
  "(string \<Rightarrow> 'dt option) \<Rightarrow> ('dt \<Rightarrow> string) \<Rightarrow> args \<Rightarrow> string list" where
  "fragments fromisoformat isoformat a =
     (if truthy (environment a) then [''environment:'' @ the (environment a)] else []) @
     (if truthy (start_at a)
      then [''firstSeen:>'' @ isoformat (the (fromisoformat (the (start_at a)))) @ ''Z'']
      else []) @
     (if truthy (end_at a)
      then [''firstSeen:<'' @ isoformat (the (fromisoformat (the (end_at a)))) @ ''Z'']
      else []) @
     (if truthy (query a) then [the (query a)] else [])"

text \<open>No criterion of the query is set.\<close>

definition no_criteria :: "args \<Rightarrow> bool" where
  "no_criteria a =
     (\<not> truthy (environment a) \<and> \<not> truthy (start_at a) \<and> \<not> truthy (end_at a) \<and>
      \<not> truthy (query a))"

text \<open>
  The text of a top-level field that the filter reads without coercion, and of a field of
  \<open>metadata\<close> that it reads through \<open>str\<close>; a missing field is the empty string.
\<close>

definition field_text :: "(string \<times> json) list \<Rightarrow> string \<Rightarrow> string" where
  "field_text kvs k = (case map_of kvs k of Some (JStr s) \<Rightarrow> s | _ \<Rightarrow> [])"

definition metadata_text :: "(string \<times> json) list \<Rightarrow> string \<Rightarrow> string" where
  "metadata_text kvs k =
     (case map_of kvs ''metadata'' of
        Some (JObj m) \<Rightarrow> (case map_of m k of None \<Rightarrow> [] | Some v \<Rightarrow> str_json v)
      | _ \<Rightarrow> [])"

text \<open>A field that is missing or holds a string; a field that is missing or holds a dict.\<close>

definition str_or_missing :: "(string \<times> json) list \<Rightarrow> string \<Rightarrow> bool" where
  "str_or_missing kvs k =
     (case map_of kvs k of None \<Rightarrow> True | Some (JStr _) \<Rightarrow> True | Some _ \<Rightarrow> False)"

definition dict_or_missing :: "(string \<times> json) list \<Rightarrow> string \<Rightarrow> bool" where
  "dict_or_missing kvs k =
     (case map_of kvs k of None \<Rightarrow> True | Some (JObj _) \<Rightarrow> True | Some _ \<Rightarrow> False)"

text \<open>The test \<open>matches_text_filter\<close> returns a truth value, and that value is true.\<close>

definition matches :: "(string \<Rightarrow> string) \<Rightarrow> string \<Rightarrow> json \<Rightarrow> bool" where
  "matches lower f issue = (matches_text_filter lower issue f = Inr True)"

definition returns :: "(string \<Rightarrow> string) \<Rightarrow> string \<Rightarrow> json \<Rightarrow> bool" where
  "returns lower f issue =
     (case matches_text_filter lower issue f of Inl _ \<Rightarrow> False | Inr _ \<Rightarrow> True)"

subsection \<open>Sample instances of the library parameters\<close>

text \<open>
  The theorems hold for every \<open>fromisoformat\<close>, \<open>isoformat\<close> and \<open>lower\<close>. The
  functions of this subsection are inputs for the examples only. \<open>sample_fromisoformat\<close>
  accepts the two forms the command's help names, \<open>YYYY-MM-DD\<close> and
  \<open>YYYY-MM-DDTHH:MM:SS\<close>, where \<open>datetime.fromisoformat\<close> gives the same datetime, and
  rejects every other string (the library accepts further forms);
  \<open>sample_isoformat\<close> prints such a datetime as the library does. \<open>ascii_lower\<close> moves
  the letters \<open>A\<close> to \<open>Z\<close> to \<open>a\<close> to \<open>z\<close>, which is \<open>str.lower\<close> on ASCII text.
\<close>

definition is_digit :: "char \<Rightarrow> bool" where
  "is_digit ch = (48 \<le> (of_char ch :: nat) \<and> (of_char ch :: nat) \<le> 57)"

definition digit_val :: "char \<Rightarrow> nat" where
  "digit_val ch = of_char ch - 48"

definition days_in_month :: "nat \<Rightarrow> nat \<Rightarrow> nat" where
  "days_in_month y m =
     (if m = 2 then (if y mod 4 = 0 \<and> (y mod 100 \<noteq> 0 \<or> y mod 400 = 0) then 29 else 28)
      else if m = 4 \<or> m = 6 \<or> m = 9 \<or> m = 11 then 30 else 31)"

definition parse_date :: "string \<Rightarrow> (nat \<times> nat \<times> nat) option" where
  "parse_date s =
     (case s of
        [y1, y2, y3, y4, h1, m1, m2, h2, d1, d2] \<Rightarrow>
          (let y = 1000 * digit_val y1 + 100 * digit_val y2 + 10 * digit_val y3 + digit_val y4;
               m = 10 * digit_val m1 + digit_val m2;
               d = 10 * digit_val d1 + digit_val d2
           in if list_all is_digit [y1, y2, y3, y4, m1, m2, d1, d2] \<and>
                 h1 = CHR ''-'' \<and> h2 = CHR ''-'' \<and>
                 1 \<le> y \<and> 1 \<le> m \<and> m \<le> 12 \<and> 1 \<le> d \<and> d \<le> days_in_month y m
              then Some (y, m, d) else None)
      | _ \<Rightarrow> None)"

definition parse_time :: "string \<Rightarrow> (nat \<times> nat \<times> nat) option" where
  "parse_time s =
     (case s of
        [a1, a2, c1, b1, b2, c2, e1, e2] \<Rightarrow>
          (let hh = 10 * digit_val a1 + digit_val a2;
               mm = 10 * digit_val b1 + digit_val b2;
               ss = 10 * digit_val e1 + digit_val e2
           in if list_all is_digit [a1, a2, b1, b2, e1, e2] \<and>
                 c1 = CHR '':'' \<and> c2 = CHR '':'' \<and> hh < 24 \<and> mm < 60 \<and> ss < 60
              then Some (hh, mm, ss) else None)
      | _ \<Rightarrow> None)"

type_synonym sample_datetime = "(nat \<times> nat \<times> nat) \<times> (nat \<times> nat \<times> nat)"

definition sample_fromisoformat :: "string \<Rightarrow> sample_datetime option" where
  "sample_fromisoformat s =
     (if length s = 10 then
        (case parse_date s of None \<Rightarrow> None | Some d \<Rightarrow> Some (d, (0, 0, 0)))
      else if length s = 19 \<and> s ! 10 = CHR ''T'' then
        (case parse_date (take 10 s) of
           None \<Rightarrow> None
         | Some d \<Rightarrow> (case parse_time (drop 11 s) of None \<Rightarrow> None | Some t \<Rightarrow> Some (d, t)))
      else None)"

definition two_digits :: "nat \<Rightarrow> string" where
  "two_digits n = [digit_char (n div 10), digit_char (n mod 10)]"

definition sample_isoformat :: "sample_datetime \<Rightarrow> string" where
  "sample_isoformat dt =
     (case dt of ((y, m, d), (hh, mm, ss)) \<Rightarrow>
        two_digits (y div 100) @ two_digits (y mod 100) @ ''-'' @ two_digits m @ ''-'' @
        two_digits d @ ''T'' @ two_digits hh @ '':'' @ two_digits mm @ '':'' @ two_digits ss)"

definition ascii_lower_char :: "char \<Rightarrow> char" where
  "ascii_lower_char ch =
     (let n = (of_char ch :: nat) in if 65 \<le> n \<and> n \<le> 90 then char_of (n + 32) else ch)"

definition ascii_lower :: "string \<Rightarrow> string" where
  "ascii_lower s = map ascii_lower_char s"

text \<open>Sample arguments of \<open>fetch-issues\<close>.\<close>

definition args0 :: args where
  "args0 = \<lparr>project = ''billing-service'', environment = None, start_at = None,
            end_at = None, query = None, text_filter = None, stats_period = None,
            limit = 50, sort = ''date''\<rparr>"

subsection \<open>Sample servers and clients\<close>

definition client0 :: client where
  "client0 = SentryClient ''secret'' ''square-inc'' default_base_url"

text \<open>A server that answers every request with status 304 and no body.\<close>

definition srv_not_modified :: server where
  "srv_not_modified h rq = Inr \<lparr>status_code = 304, body = [], json_body = None, links = []\<rparr>"

text \<open>A server that answers every request with status 404 and an error body.\<close>

definition srv_not_found :: server where
  "srv_not_found h rq =
     Inr \<lparr>status_code = 404, body = ''not found'',
          json_body = Some (JObj [(''detail'', JStr ''not found'')]), links = []\<rparr>"

text \<open>
  A server with endless results: every page holds the number of requests seen before and
  the URL asked for, and links to a further page.
\<close>

definition srv_endless :: server where
  "srv_endless h rq =
     Inr \<lparr>status_code = 200, body = [],
          json_body = Some (JArr [JInt (int (length h)), JStr (req_url rq)]),
          links = [(''next'', [(''url'', req_url rq @ ''+''), (''rel'', ''next''),
                               (''results'', ''true'')])]\<rparr>"

text \<open>A server whose only page is empty and carries no link.\<close>

definition srv_empty :: server where
  "srv_empty h rq = Inr \<lparr>status_code = 200, body = ''[]'', json_body = Some (JArr []), links = []\<rparr>"

text \<open>
  A server whose first page holds one item and links to a second page, and which answers
  every later request with status 500.
\<close>

definition srv_fail_second :: server where
  "srv_fail_second h rq =
     (if h = [] then
        Inr \<lparr>status_code = 200, body = [], json_body = Some (JArr [JInt 1]),
             links = [(''next'', [(''url'', ''page2''), (''results'', ''true'')])]\<rparr>
      else Inr \<lparr>status_code = 500, body = ''oops'', json_body = None, links = []\<rparr>)"

text \<open>A server with two pages: the first links to the second, the second to nothing.\<close>

definition srv_two_pages :: server where
  "srv_two_pages h rq =
     (if h = [] then
        Inr \<lparr>status_code = 200, body = [], json_body = Some (JArr [JInt 1, JInt 2]),
             links = [(''next'', [(''url'', ''page2''), (''results'', ''true'')])]\<rparr>
      else Inr \<lparr>status_code = 200, body = [], json_body = Some (JArr [JInt 3]),
                links = [(''next'', [(''url'', ''page3''), (''results'', ''false'')])]\<rparr>)"

text \<open>
  A server whose every page holds one item and carries a next link marked as having
  further results, with an empty URL.
\<close>

definition srv_empty_link :: server where
  "srv_empty_link h rq =
     Inr \<lparr>status_code = 200, body = [], json_body = Some (JArr [JInt (int (length h))]),
          links = [(''next'', [(''url'', []), (''results'', ''true'')])]\<rparr>"

section \<open>Properties of the request executor\<close>

lemma get_Inr:
  "srv lg (mk_request c url ps) = Inr r \<Longrightarrow>
   get srv c url ps lg =
     (if 400 \<le> status_code r \<and> status_code r < 600 then Inl (HTTPError r) else Inr r,
      lg @ [mk_request c url ps])"
  by (simp add: get_def mk_request_def raise_for_status_def Let_def)

lemma get_Inl:
  "srv lg (mk_request c url ps) = Inl e \<Longrightarrow>
   get srv c url ps lg = (Inl e, lg @ [mk_request c url ps])"
  by (simp add: get_def mk_request_def Let_def)

lemma snd_get: "snd (get srv c url ps lg) = lg @ [mk_request c url ps]"
  by (cases "srv lg (mk_request c url ps)") (simp_all add: get_Inl get_Inr)

text \<open>
  C3, as the code has it. A response whose status is an error status (400 to 599) makes
  \<open>_get\<close> raise \<open>HTTPError\<close> holding that response, so its status code and body; a
  response with any other status, every 2xx status among them, is returned. Either way
  exactly one request is issued: nothing is retried.
\<close>

theorem get_error_status:
  assumes "srv lg (mk_request c url ps) = Inr r"
  shows "(400 \<le> status_code r \<and> status_code r < 600 \<longrightarrow>
            fst (get srv c url ps lg) = Inl (HTTPError r)) \<and>
         (\<not> (400 \<le> status_code r \<and> status_code r < 600) \<longrightarrow>
            fst (get srv c url ps lg) = Inr r) \<and>
         (200 \<le> status_code r \<and> status_code r < 300 \<longrightarrow>
            fst (get srv c url ps lg) = Inr r) \<and>
         snd (get srv c url ps lg) = lg @ [mk_request c url ps]"
  using assms by (simp add: get_Inr)

theorem get_error_status_witness:
  "srv_not_found [] (mk_request client0 ''u'' None) =
     Inr \<lparr>status_code = 404, body = ''not found'',
          json_body = Some (JObj [(''detail'', JStr ''not found'')]), links = []\<rparr> \<and>
   get srv_not_found client0 ''u'' None [] =
     (Inl (HTTPError \<lparr>status_code = 404, body = ''not found'',
             json_body = Some (JObj [(''detail'', JStr ''not found'')]), links = []\<rparr>),
      [mk_request client0 ''u'' None])"
proof -
  let ?r = "\<lparr>status_code = 404, body = ''not found'',
             json_body = Some (JObj [(''detail'', JStr ''not found'')]), links = []\<rparr>"
  have h: "srv_not_found [] (mk_request client0 ''u'' None) = Inr ?r"
    by (simp add: srv_not_found_def)
  show ?thesis
    using h get_error_status [of srv_not_found "[]" client0 "''u''" None ?r, OF h]
    by (cases "get srv_not_found client0 ''u'' None []") simp
qed

text \<open>
  C3 as stated fails: status 304 lies outside the 2xx range, and \<open>_get\<close> returns the
  response instead of raising.
\<close>

theorem get_non_2xx_counterexample:
  "fst (get srv_not_modified client0 ''u'' None []) =
     Inr \<lparr>status_code = 304, body = [], json_body = None, links = []\<rparr>"
  by (simp add: get_def srv_not_modified_def raise_for_status_def Let_def)
section \<open>Properties of the pagination walker\<close>

subsection \<open>The loop, pass by pass\<close>

lemma get_paginated_session0:
  "get_paginated srv c url ps max_pages lg = while_loop srv c max_pages (session0 url ps lg)"
  by (simp add: get_paginated_def session0_def)

text \<open>The loop body on a successful page that announces a further one.\<close>

lemma loop_body_more:
  assumes "srv (sent s) (mk_request c (cur_url s) (cur_params s)) = Inr r" "more_page r"
  shows "\<exists>u. next_url r = Some u \<and> u \<noteq> [] \<and>
     loop_body srv c mp s =
       (let s2 = s\<lparr>cur_url := u, cur_params := None,
                   all_items := all_items s @ page_items (Inr r),
                   page_count := page_count s + 1,
                   sent := sent s @ [mk_request c (cur_url s) (cur_params s)]\<rparr>
        in case mp of
             None \<Rightarrow> Continue s2
           | Some m \<Rightarrow> if m \<noteq> 0 \<and> m \<le> page_count s + 1 then Break s2 else Continue s2)"
  using assms
  by (auto simp: loop_body_def get_Inr more_page_def has_more_def next_url_def page_items_def
      response_json_def Let_def split: option.splits json.splits)


text \<open>
  With endless results and a bound \<open>N\<close> above the pages counted so far, the loop issues
  exactly \<open>N - page_count\<close> further requests and appends their pages in order.
\<close>

lemma while_loop_bounded:
  assumes more: "\<And>h rq. \<exists>r. srv h rq = Inr r \<and> more_page r"
  shows "cur_url s \<noteq> [] \<Longrightarrow> 0 \<le> page_count s \<Longrightarrow> page_count s < N \<Longrightarrow>
     n = nat (N - page_count s) \<Longrightarrow>
     \<exists>new. length new = n \<and>
       while_loop srv c (Some N) s =
         Some (Inr (all_items s @
                    concat (map (fetched srv (sent s @ new))
                              [length (sent s) ..< length (sent s) + n])),
               sent s @ new)"
proof (induction n arbitrary: s)
  case 0
  then show ?case by simp
next
  case (Suc n)
  let ?rq = "mk_request c (cur_url s) (cur_params s)"
  obtain r where r: "srv (sent s) ?rq = Inr r" "more_page r" using more by blast
  from loop_body_more[of srv s c r "Some N", OF r] obtain u
    where u: "next_url r = Some u" "u \<noteq> []"
      and lb: "loop_body srv c (Some N) s =
       (let s2 = s\<lparr>cur_url := u, cur_params := None,
                   all_items := all_items s @ page_items (Inr r),
                   page_count := page_count s + 1,
                   sent := sent s @ [?rq]\<rparr>
        in if N \<noteq> 0 \<and> N \<le> page_count s + 1 then Break s2 else Continue s2)"
    by auto
  let ?s2 = "s\<lparr>cur_url := u, cur_params := None,
                   all_items := all_items s @ page_items (Inr r),
                   page_count := page_count s + 1,
                   sent := sent s @ [?rq]\<rparr>"
  have f0: "\<And>new. fetched srv (sent s @ ?rq # new) (length (sent s)) = page_items (Inr r)"
    by (simp add: fetched_def r)
  show ?case
  proof (cases "N \<le> page_count s + 1")
    case True
    with Suc.prems have n0: "n = 0" by simp
    have "while_loop srv c (Some N) s = Some (Inr (all_items ?s2), sent ?s2)"
      using True Suc.prems lb by (subst while_loop.simps) (simp add: Let_def)
    then show ?thesis using n0 f0[of "[]"] by (intro exI[of _ "[?rq]"]) simp
  next
    case False
    then have "0 \<le> page_count ?s2" "page_count ?s2 < N" "n = nat (N - page_count ?s2)"
      using Suc.prems by simp_all
    from Suc.IH[OF _ this] u obtain new where new: "length new = n"
      "while_loop srv c (Some N) ?s2 =
         Some (Inr (all_items ?s2 @
                    concat (map (fetched srv (sent ?s2 @ new))
                              [length (sent ?s2) ..< length (sent ?s2) + n])),
               sent ?s2 @ new)" by auto
    have wl: "while_loop srv c (Some N) s = while_loop srv c (Some N) ?s2"
      using False Suc.prems lb by (subst while_loop.simps) (simp add: Let_def)
    have "[length (sent s) ..< length (sent s) + Suc n] =
          length (sent s) # [Suc (length (sent s)) ..< Suc (length (sent s)) + n]"
      by (simp add: upt_rec)
    then show ?thesis using new wl f0[of new]
      by (intro exI[of _ "?rq # new"]) simp
  qed
qed

text \<open>Passes of the loop body that go on to the next test do not change the outcome.\<close>

lemma while_loop_advance:
  "advance srv c mp k s = Some s' \<Longrightarrow> while_loop srv c mp s = while_loop srv c mp s'"
proof (induction k arbitrary: s)
  case 0
  then show ?case by simp
next
  case (Suc k)
  from Suc.prems have url: "cur_url s \<noteq> []" by (simp split: if_splits)
  from Suc.prems url obtain s1 where s1: "loop_body srv c mp s = Continue s1"
    "advance srv c mp k s1 = Some s'"
    by (auto split: step.splits)
  have "while_loop srv c mp s = while_loop srv c mp s1"
    using url s1(1) by (subst while_loop.simps) simp
  with Suc.IH[OF s1(2)] show ?case by simp
qed

text \<open>A terminating run is a number of continuing passes and a last one that ends the loop.\<close>

lemma while_loop_Some:
  assumes "while_loop srv c mp s = Some res"
  shows "\<exists>k s'. advance srv c mp k s = Some s' \<and> ends_with srv c mp s' res"
proof (rule while_loop.raw_induct[where P = "\<lambda>srv c mp s res.
          \<exists>k s'. advance srv c mp k s = Some s' \<and> ends_with srv c mp s' res", OF _ assms],
       goal_cases)
  case (1 f srv c mp s res)
  show ?case
  proof (cases "cur_url s = []")
    case True
    with 1(2) have "ends_with srv c mp s res" by (auto simp: ends_with_def)
    then show ?thesis by (intro exI[of _ 0] exI[of _ s]) simp
  next
    case False
    show ?thesis
    proof (cases "loop_body srv c mp s")
      case (Continue s1)
      with False 1(2) have "f srv c mp s1 = Some res" by simp
      from 1(1)[OF this] obtain k s' where
        "advance srv c mp k s1 = Some s'" "ends_with srv c mp s' res" by blast
      then show ?thesis using False Continue
        by (intro exI[of _ "Suc k"] exI[of _ s']) simp
    next
      case (Break s1)
      with False 1(2) have "ends_with srv c mp s res" by (auto simp: ends_with_def)
      then show ?thesis by (intro exI[of _ 0] exI[of _ s]) simp
    next
      case (Raise e lg)
      with False 1(2) have "ends_with srv c mp s res" by (auto simp: ends_with_def)
      then show ?thesis by (intro exI[of _ 0] exI[of _ s]) simp
    qed
  qed
qed

lemma advance_snoc:
  "advance srv c mp (Suc k) s =
     (case advance srv c mp k s of
        None \<Rightarrow> None
      | Some s1 \<Rightarrow> advance srv c mp (Suc 0) s1)"
proof (induction k arbitrary: s)
  case 0
  then show ?case by simp
next
  case (Suc k)
  show ?case
  proof (cases "cur_url s = []")
    case True
    then show ?thesis by simp
  next
    case False
    show ?thesis
    proof (cases "loop_body srv c mp s")
      case (Continue s1)
      have "advance srv c mp (Suc (Suc k)) s = advance srv c mp (Suc k) s1"
        using False Continue by simp
      also have "\<dots> = (case advance srv c mp k s1 of None \<Rightarrow> None
                         | Some s2 \<Rightarrow> advance srv c mp (Suc 0) s2)"
        by (rule Suc.IH)
      also have "advance srv c mp k s1 = advance srv c mp (Suc k) s"
        using False Continue by simp
      finally show ?thesis .
    qed (use False in simp_all)
  qed
qed

lemma loop_body_Continue:
  assumes "loop_body srv c mp s = Continue s'"
  shows "\<exists>r u. srv (sent s) (mk_request c (cur_url s) (cur_params s)) = Inr r \<and>
           has_more r \<and> next_url r = Some u \<and>
           (mp = None \<or> mp = Some 0 \<or> (\<exists>m. mp = Some m \<and> page_count s + 1 < m)) \<and>
           cur_url s' = u \<and> cur_params s' = None \<and> page_count s' = page_count s + 1 \<and>
           sent s' = sent s @ [mk_request c (cur_url s) (cur_params s)]"
proof (cases "srv (sent s) (mk_request c (cur_url s) (cur_params s))")
  case (Inl e)
  with assms show ?thesis by (simp add: loop_body_def get_Inl)
next
  case (Inr r)
  with assms show ?thesis
    by (auto simp: loop_body_def get_Inr has_more_def next_url_def Let_def
        split: if_splits sum.splits option.splits)
qed

lemma loop_body_Break:
  assumes "loop_body srv c mp s = Break s'"
  shows "\<exists>r. srv (sent s) (mk_request c (cur_url s) (cur_params s)) = Inr r \<and>
           sent s' = sent s @ [mk_request c (cur_url s) (cur_params s)] \<and>
           (has_more r \<longrightarrow> (\<exists>m. mp = Some m \<and> m \<noteq> 0 \<and> m \<le> page_count s + 1))"
proof (cases "srv (sent s) (mk_request c (cur_url s) (cur_params s))")
  case (Inl e)
  with assms show ?thesis by (simp add: loop_body_def get_Inl)
next
  case (Inr r)
  with assms show ?thesis
    by (auto simp: loop_body_def get_Inr has_more_def next_url_def Let_def
        split: if_splits sum.splits option.splits)
qed

lemma loop_body_Raise:
  assumes "loop_body srv c mp s = Raise e lg'"
  shows "lg' = sent s @ [mk_request c (cur_url s) (cur_params s)]"
proof (cases "srv (sent s) (mk_request c (cur_url s) (cur_params s))")
  case (Inl e)
  with assms show ?thesis by (simp add: loop_body_def get_Inl)
next
  case (Inr r)
  with assms show ?thesis
    by (auto simp: loop_body_def get_Inr Let_def
        split: if_splits sum.splits option.splits)
qed






text \<open>The requests of a session, pass by pass.\<close>

lemma session_requests_snoc:
  assumes "session_requests srv c url ps lg new" "next_request srv url ps lg new s"
  shows "session_requests srv c url ps lg (new @ [mk_request c (cur_url s) (cur_params s)])"
  unfolding session_requests_def
proof (intro allI impI)
  fix i assume i: "i < length (new @ [mk_request c (cur_url s) (cur_params s)])"
  let ?new = "new @ [mk_request c (cur_url s) (cur_params s)]"
  show "req_headers (?new ! i) = headers c \<and>
        (if i = 0 then req_url (?new ! i) = url \<and> req_params (?new ! i) = ps
         else req_params (?new ! i) = None \<and>
              (case srv (lg @ take (i - 1) ?new) (?new ! (i - 1)) of
                 Inl _ \<Rightarrow> False
               | Inr r \<Rightarrow> next_url r = Some (req_url (?new ! i))))"
  proof (cases "i < length new")
    case True
    have fi: "req_headers (new ! i) = headers c \<and>
        (if i = 0 then req_url (new ! i) = url \<and> req_params (new ! i) = ps
         else req_params (new ! i) = None \<and>
              (case srv (lg @ take (i - 1) new) (new ! (i - 1)) of
                 Inl _ \<Rightarrow> False
               | Inr r \<Rightarrow> next_url r = Some (req_url (new ! i))))"
      using assms(1) True unfolding session_requests_def by blast
    have eqs: "?new ! i = new ! i" "?new ! (i - 1) = new ! (i - 1)"
      "take (i - 1) ?new = take (i - 1) new"
      using True by (simp_all add: nth_append)
    show ?thesis unfolding eqs by (rule fi)
  next
    case False
    with i have il: "i = length new" by simp
    show ?thesis
    proof (cases "new = []")
      case True
      with il assms(2) show ?thesis by (simp add: next_request_def mk_request_def)
    next
      case False
      have e1: "?new ! i = mk_request c (cur_url s) (cur_params s)"
        using il by simp
      have e2: "?new ! (i - 1) = last new" "take (i - 1) ?new = butlast new"
        using il False by (simp_all add: nth_append butlast_conv_take last_conv_nth)
      show ?thesis unfolding e1 e2
        using False il assms(2)
        by (simp add: next_request_def mk_request_def split: sum.splits)
    qed
  qed
qed

lemma advance_requests:
  "advance srv c mp k (session0 url ps lg) = Some s \<Longrightarrow>
   \<exists>new. sent s = lg @ new \<and> length new = k \<and>
         session_requests srv c url ps lg new \<and> next_request srv url ps lg new s"
proof (induction k arbitrary: s)
  case 0
  then show ?case
    by (auto simp: session0_def session_requests_def next_request_def)
next
  case (Suc k)
  have "(case advance srv c mp k (session0 url ps lg) of None \<Rightarrow> None
         | Some s1 \<Rightarrow> advance srv c mp (Suc 0) s1) = Some s"
    using Suc.prems advance_snoc[of srv c mp k "session0 url ps lg"]
    by (simp del: advance.simps)
  then obtain s1 where s1: "advance srv c mp k (session0 url ps lg) = Some s1"
    "advance srv c mp (Suc 0) s1 = Some s"
    by (cases "advance srv c mp k (session0 url ps lg)") (simp_all del: advance.simps)
  from Suc.IH[OF s1(1)] obtain new where new: "sent s1 = lg @ new" "length new = k"
    "session_requests srv c url ps lg new" "next_request srv url ps lg new s1" by blast
  from s1(2) have lb: "loop_body srv c mp s1 = Continue s"
    by (auto split: if_splits step.splits)
  let ?rq = "mk_request c (cur_url s1) (cur_params s1)"
  from loop_body_Continue[OF lb] obtain r where r:
    "srv (sent s1) ?rq = Inr r" "next_url r = Some (cur_url s)" "cur_params s = None"
    "sent s = sent s1 @ [?rq]" by auto
  have "next_request srv url ps lg (new @ [?rq]) s"
    using r new(1) by (simp add: next_request_def)
  with session_requests_snoc[OF new(3,4)] r(4) new(1,2) show ?case
    by (intro exI[of _ "new @ [?rq]"]) simp
qed

lemma ends_with_log:
  assumes "ends_with srv c mp s (res, lg')"
  shows "lg' = (if cur_url s = [] then sent s
                else sent s @ [mk_request c (cur_url s) (cur_params s)])"
proof (cases "cur_url s = []")
  case True
  with assms show ?thesis by (simp add: ends_with_def)
next
  case False
  with assms show ?thesis
    by (cases "loop_body srv c mp s")
       (auto simp: ends_with_def dest: loop_body_Break loop_body_Raise)
qed

lemma get_paginated_log:
  assumes "get_paginated srv c url ps max_pages lg = Some (res, lg')"
  shows "\<exists>new. lg' = lg @ new \<and> session_requests srv c url ps lg new"
proof -
  from assms have "while_loop srv c max_pages (session0 url ps lg) = Some (res, lg')"
    by (simp add: get_paginated_session0)
  from while_loop_Some[OF this] obtain k s where
    k: "advance srv c max_pages k (session0 url ps lg) = Some s"
    and e: "ends_with srv c max_pages s (res, lg')" by blast
  from advance_requests[OF k] obtain new where new: "sent s = lg @ new"
    "session_requests srv c url ps lg new" "next_request srv url ps lg new s" by blast
  show ?thesis
  proof (cases "cur_url s = []")
    case True
    with ends_with_log[OF e] new show ?thesis by auto
  next
    case False
    with ends_with_log[OF e] new(1) session_requests_snoc[OF new(2,3)] show ?thesis
      by (intro exI[of _ "new @ [mk_request c (cur_url s) (cur_params s)]"]) simp
  qed
qed

text \<open>
  The events listing hands the page-size limit to the walker as the parameters of the
  first request only.
\<close>

lemma list_issue_events_requests:
  assumes "list_issue_events srv c issue_id lim True max_pages lg = Some (res, lg')"
  shows "\<exists>new. lg' = lg @ new \<and>
           session_requests srv c (base_url c @ ''/issues/'' @ issue_id @ ''/events/'')
             (Some [(''limit'', PInt lim)]) lg new"
proof -
  from assms obtain res' where
    "get_paginated srv c (base_url c @ ''/issues/'' @ issue_id @ ''/events/'')
       (Some [(''limit'', PInt lim)]) max_pages lg = Some (res', lg')"
    by (auto simp: list_issue_events_def Let_def split: option.splits sum.splits)
  from get_paginated_log[OF this] show ?thesis .
qed

subsection \<open>The claims about the walker\<close>

text \<open>
  C1, as the code has it. Let the URL of the call be non-empty and let every response of
  the server be a successful page with a next link marked as having further results
  whose URL is not empty. Then \<open>_get_paginated\<close> with \<open>max_pages = N > 0\<close> returns after
  exactly \<open>N\<close> requests, the first to the caller's URL and each later one to the URL of
  the next link of the response before it, and its result is the concatenation, in
  request order, of the items the server returned to those \<open>N\<close> requests.
\<close>

theorem get_paginated_max_pages:
  assumes "\<And>h rq. \<exists>r u. srv h rq = Inr r \<and> more_page r \<and> next_url r = Some u \<and> u \<noteq> []"
    and "0 < N" and "url \<noteq> []"
  shows "\<exists>new. length new = nat N \<and> session_requests srv c url ps lg new \<and>
     get_paginated srv c url ps (Some N) lg =
       Some (Inr (concat (map (fetched srv (lg @ new)) [length lg ..< length lg + nat N])),
             lg @ new)"
proof -
  have more: "\<And>h rq. \<exists>r. srv h rq = Inr r \<and> more_page r" using assms(1) by blast
  from while_loop_bounded[of srv "session0 url ps lg" N "nat N" c, OF more] assms(2,3)
  obtain new where new: "length new = nat N"
    "get_paginated srv c url ps (Some N) lg =
       Some (Inr (concat (map (fetched srv (lg @ new)) [length lg ..< length lg + nat N])),
             lg @ new)"
    by (auto simp: get_paginated_session0 session0_def)
  from get_paginated_log[OF new(2)] have "session_requests srv c url ps lg new" by simp
  with new show ?thesis by blast
qed

theorem get_paginated_max_pages_witness:
  "(\<forall>h rq. \<exists>r u. srv_endless h rq = Inr r \<and> more_page r \<and> next_url r = Some u \<and> u \<noteq> []) \<and>
   (0::int) < 2 \<and> ''u'' \<noteq> [] \<and>
   (\<exists>new. length new = nat 2 \<and> session_requests srv_endless client0 ''u'' None [] new \<and>
      get_paginated srv_endless client0 ''u'' None (Some 2) [] =
        Some (Inr (concat (map (fetched srv_endless ([] @ new)) [length [] ..< length [] + nat 2])),
              [] @ new)) \<and>
   get_paginated srv_endless client0 ''u'' None (Some 2) [] =
     Some (Inr [JInt 0, JStr ''u'', JInt 1, JStr ''u+''],
           [mk_request client0 ''u'' None, mk_request client0 ''u+'' None])"
proof -
  have h: "\<And>h rq. \<exists>r u. srv_endless h rq = Inr r \<and> more_page r \<and> next_url r = Some u \<and> u \<noteq> []"
    by (simp add: srv_endless_def more_page_def has_more_def next_url_def)
  have run: "get_paginated srv_endless client0 ''u'' None (Some 2) [] =
     Some (Inr [JInt 0, JStr ''u'', JInt 1, JStr ''u+''],
           [mk_request client0 ''u'' None, mk_request client0 ''u+'' None])"
    by code_simp
  have "\<exists>new. length new = nat 2 \<and> session_requests srv_endless client0 ''u'' None [] new \<and>
      get_paginated srv_endless client0 ''u'' None (Some 2) [] =
        Some (Inr (concat (map (fetched srv_endless ([] @ new)) [length [] ..< length [] + nat 2])),
              [] @ new)"
    using get_paginated_max_pages[of srv_endless 2 "''u''" client0 None "[]", OF h] by simp
  moreover have "\<forall>h rq. \<exists>r u. srv_endless h rq = Inr r \<and> more_page r \<and>
      next_url r = Some u \<and> u \<noteq> []"
    using h by blast
  ultimately show ?thesis using run by simp
qed

text \<open>
  C1 as stated fails when the marked next link has an empty URL: with \<open>max_pages = 3\<close>
  the walk ends at the loop condition \<open>while url\<close> after one request.
\<close>

theorem get_paginated_max_pages_counterexample:
  "srv_empty_link [] (mk_request client0 ''u'' None) =
     Inr \<lparr>status_code = 200, body = [], json_body = Some (JArr [JInt 0]),
          links = [(''next'', [(''url'', []), (''results'', ''true'')])]\<rparr> \<and>
   has_more \<lparr>status_code = 200, body = [], json_body = Some (JArr [JInt 0]),
          links = [(''next'', [(''url'', []), (''results'', ''true'')])]\<rparr> \<and>
   get_paginated srv_empty_link client0 ''u'' None (Some 3) [] =
     Some (Inr [JInt 0], [mk_request client0 ''u'' None])"
  by (simp add: srv_empty_link_def has_more_def get_paginated_session0 session0_def)
     (subst while_loop.simps, simp add: loop_body_def get_def srv_empty_link_def
        raise_for_status_def response_json_def mk_request_def Let_def,
      subst while_loop.simps, simp)

text \<open>With \<open>max_pages = 1\<close> one request is issued although a next link existed.\<close>

lemma get_paginated_one_page:
  "get_paginated srv_endless client0 ''u'' None (Some 1) [] =
     Some (Inr [JInt 0, JStr ''u''], [mk_request client0 ''u'' None])"
  by (subst get_paginated_session0, subst while_loop.simps)
     (simp add: session0_def loop_body_def get_def srv_endless_def raise_for_status_def
        response_json_def mk_request_def Let_def)

text \<open>
  C4. When the first response is a successful page without a next link marked as having
  further results, one request is issued whatever \<open>max_pages\<close> is, and the result is that
  page's items: the empty list for an empty page.
\<close>

theorem get_paginated_single_page:
  assumes "url \<noteq> []"
    and "srv lg (mk_request c url ps) = Inr r"
    and "\<not> (400 \<le> status_code r \<and> status_code r < 600)"
    and "json_body r = Some (JArr xs)"
    and "\<not> has_more r"
  shows "get_paginated srv c url ps max_pages lg = Some (Inr xs, lg @ [mk_request c url ps])"
proof -
  have "loop_body srv c max_pages (session0 url ps lg) =
          Break ((session0 url ps lg)\<lparr>all_items := xs, sent := lg @ [mk_request c url ps]\<rparr>)"
    using assms
    by (auto simp: loop_body_def session0_def get_Inr response_json_def has_more_def Let_def
        split: option.splits)
  then show ?thesis
    using assms(1)
    by (subst get_paginated_session0, subst while_loop.simps) (simp add: session0_def)
qed

theorem get_paginated_single_page_witness:
  "''u'' \<noteq> [] \<and>
   srv_empty [] (mk_request client0 ''u'' None) =
     Inr \<lparr>status_code = 200, body = ''[]'', json_body = Some (JArr []), links = []\<rparr> \<and>
   get_paginated srv_empty client0 ''u'' None (Some 5) [] =
     Some (Inr [], [mk_request client0 ''u'' None])"
  using get_paginated_single_page[of "''u''" srv_empty "[]" client0 None
      "\<lparr>status_code = 200, body = ''[]'', json_body = Some (JArr []), links = []\<rparr>"
      "[]" "Some 5"]
  by (simp add: srv_empty_def has_more_def)

text \<open>
  C2. Let \<open>k\<close> pages have been fetched, each leading on to the next. If the request for
  page \<open>k + 1\<close> fails, \<open>_get_paginated\<close> ends with that error: the caller gets no list,
  whatever had been accumulated in \<open>all_items\<close>.
\<close>

theorem get_paginated_failure:
  assumes "advance srv c max_pages k (session0 url ps lg) = Some s"
    and "cur_url s \<noteq> []"
    and "fst (get srv c (cur_url s) (cur_params s) (sent s)) = Inl e"
  shows "get_paginated srv c url ps max_pages lg =
           Some (Inl e, sent s @ [mk_request c (cur_url s) (cur_params s)])"
proof -
  have "get srv c (cur_url s) (cur_params s) (sent s) =
          (Inl e, sent s @ [mk_request c (cur_url s) (cur_params s)])"
    using assms(3) snd_get[of srv c "cur_url s" "cur_params s" "sent s"]
    by (cases "get srv c (cur_url s) (cur_params s) (sent s)") simp
  then have "loop_body srv c max_pages s =
          Raise e (sent s @ [mk_request c (cur_url s) (cur_params s)])"
    by (simp add: loop_body_def)
  then have "while_loop srv c max_pages s =
          Some (Inl e, sent s @ [mk_request c (cur_url s) (cur_params s)])"
    using assms(2) by (subst while_loop.simps) simp
  then show ?thesis
    using while_loop_advance[OF assms(1)] by (simp add: get_paginated_session0)
qed

theorem get_paginated_failure_witness:
  "advance srv_fail_second client0 None (Suc 0) (session0 ''u'' None []) =
     Some \<lparr>cur_url = ''page2'', cur_params = None, all_items = [JInt 1], page_count = 1,
           sent = [mk_request client0 ''u'' None]\<rparr> \<and>
   get_paginated srv_fail_second client0 ''u'' None None [] =
     Some (Inl (HTTPError \<lparr>status_code = 500, body = ''oops'', json_body = None, links = []\<rparr>),
           [mk_request client0 ''u'' None, mk_request client0 ''page2'' None])"
proof -
  let ?s = "\<lparr>cur_url = ''page2'', cur_params = None, all_items = [JInt 1], page_count = 1,
            sent = [mk_request client0 ''u'' None]\<rparr>"
  let ?r = "\<lparr>status_code = 500, body = ''oops'', json_body = None, links = []\<rparr>"
  have a: "advance srv_fail_second client0 None (Suc 0) (session0 ''u'' None []) = Some ?s"
    by (simp add: session0_def loop_body_def get_def srv_fail_second_def raise_for_status_def
        response_json_def mk_request_def Let_def)
  have b: "cur_url ?s \<noteq> []" by simp
  have c: "fst (get srv_fail_second client0 (cur_url ?s) (cur_params ?s) (sent ?s)) =
             Inl (HTTPError ?r)"
    by (simp add: get_def srv_fail_second_def raise_for_status_def Let_def)
  show ?thesis
    using a get_paginated_failure[OF a b c] by simp
qed




text \<open>
  C9. In one paginated session only the first request carries the caller's URL and query
  parameters; every later request has its parameters cleared and goes to the URL of the
  next link of the response before it; all requests carry the same headers, those of the
  client. This holds of the requests issued after any number of passes of the loop, and
  of the whole log when the call returns or raises.
\<close>

theorem get_paginated_requests:
  "(\<forall>k s. advance srv c max_pages k (session0 url ps lg) = Some s \<longrightarrow>
       (\<exists>new. sent s = lg @ new \<and> length new = k \<and> session_requests srv c url ps lg new)) \<and>
   (\<forall>res lg'. get_paginated srv c url ps max_pages lg = Some (res, lg') \<longrightarrow>
       (\<exists>new. lg' = lg @ new \<and> session_requests srv c url ps lg new))"
proof (intro conjI allI impI)
  fix k s assume "advance srv c max_pages k (session0 url ps lg) = Some s"
  from advance_requests[OF this]
  show "\<exists>new. sent s = lg @ new \<and> length new = k \<and> session_requests srv c url ps lg new"
    by blast
next
  fix res lg' assume "get_paginated srv c url ps max_pages lg = Some (res, lg')"
  from get_paginated_log[OF this]
  show "\<exists>new. lg' = lg @ new \<and> session_requests srv c url ps lg new" .
qed

theorem get_paginated_requests_witness:
  "get_paginated srv_two_pages client0 ''u'' (Some [(''limit'', PInt 100)]) (Some 5) [] =
     Some (Inr [JInt 1, JInt 2, JInt 3],
       [\<lparr>req_url = ''u'',
         req_headers = [(''Authorization'', ''Bearer secret''),
                        (''Content-Type'', ''application/json'')],
         req_params = Some [(''limit'', PInt 100)]\<rparr>,
        \<lparr>req_url = ''page2'',
         req_headers = [(''Authorization'', ''Bearer secret''),
                        (''Content-Type'', ''application/json'')],
         req_params = None\<rparr>]) \<and>
   session_requests srv_two_pages client0 ''u'' (Some [(''limit'', PInt 100)]) []
       [\<lparr>req_url = ''u'',
         req_headers = [(''Authorization'', ''Bearer secret''),
                        (''Content-Type'', ''application/json'')],
         req_params = Some [(''limit'', PInt 100)]\<rparr>,
        \<lparr>req_url = ''page2'',
         req_headers = [(''Authorization'', ''Bearer secret''),
                        (''Content-Type'', ''application/json'')],
         req_params = None\<rparr>]"
proof -
  let ?lg = "[\<lparr>req_url = ''u'',
         req_headers = [(''Authorization'', ''Bearer secret''),
                        (''Content-Type'', ''application/json'')],
         req_params = Some [(''limit'', PInt 100)]\<rparr>,
        \<lparr>req_url = ''page2'',
         req_headers = [(''Authorization'', ''Bearer secret''),
                        (''Content-Type'', ''application/json'')],
         req_params = None\<rparr>]"
  have run: "get_paginated srv_two_pages client0 ''u'' (Some [(''limit'', PInt 100)]) (Some 5) [] =
     Some (Inr [JInt 1, JInt 2, JInt 3], ?lg)"
    by code_simp
  from get_paginated_requests[of srv_two_pages client0 "Some 5" "''u''"
      "Some [(''limit'', PInt 100)]" "[]"] run
  have "session_requests srv_two_pages client0 ''u'' (Some [(''limit'', PInt 100)]) [] ?lg"
    by simp
  with run show ?thesis by simp
qed

section \<open>Properties of the query composer\<close>

text \<open>
  C5. A criterion is set when its option holds a non-empty string (the test \<open>if args.x\<close>).
  When the dates that are set parse, the query is absent exactly when no criterion is
  set, and otherwise it is the fragments \<open>environment:<value>\<close>, \<open>firstSeen:><start>Z\<close>,
  \<open>firstSeen:<<end>Z\<close> and the free text, those whose criterion is set, in this order,
  joined by single spaces.
\<close>

theorem build_query_composed:
  assumes "truthy (start_at a) \<longrightarrow> fromisoformat (the (start_at a)) \<noteq> None"
    and "truthy (end_at a) \<longrightarrow> fromisoformat (the (end_at a)) \<noteq> None"
  shows "build_query fromisoformat isoformat a =
           Inr (if no_criteria a then None
                else Some (join '' '' (fragments fromisoformat isoformat a)))"
  using assms
  by (auto simp: build_query_def fragments_def no_criteria_def Let_def split: option.splits)

lemma sample_fromisoformat_date:
  "sample_fromisoformat ''2024-01-01'' = Some ((2024, 1, 1), (0, 0, 0))"
  by (simp add: sample_fromisoformat_def parse_date_def is_digit_def digit_val_def
      days_in_month_def)

lemma sample_fromisoformat_datetime:
  "sample_fromisoformat ''2024-02-01T12:30:00'' = Some ((2024, 2, 1), (12, 30, 0))"
  by (simp add: sample_fromisoformat_def parse_date_def parse_time_def is_digit_def
      digit_val_def days_in_month_def)

lemma sample_isoformat_date:
  "sample_isoformat ((2024, 1, 1), (0, 0, 0)) = ''2024-01-01T00:00:00''"
  by (simp add: sample_isoformat_def two_digits_def digit_char_def char_of_def bit_0)

lemma sample_isoformat_datetime:
  "sample_isoformat ((2024, 2, 1), (12, 30, 0)) = ''2024-02-01T12:30:00''"
  by (simp add: sample_isoformat_def two_digits_def digit_char_def char_of_def bit_0)

theorem build_query_composed_witness:
  "sample_fromisoformat ''2024-01-01'' \<noteq> None \<and>
   sample_fromisoformat ''2024-02-01T12:30:00'' \<noteq> None \<and>
   build_query sample_fromisoformat sample_isoformat
     (args0\<lparr>environment := Some ''production'', start_at := Some ''2024-01-01'',
            end_at := Some ''2024-02-01T12:30:00'', query := Some ''is:unresolved''\<rparr>) =
   Inr (Some ''environment:production firstSeen:>2024-01-01T00:00:00Z firstSeen:<2024-02-01T12:30:00Z is:unresolved'')"
proof -
  let ?a = "args0\<lparr>environment := Some ''production'', start_at := Some ''2024-01-01'',
            end_at := Some ''2024-02-01T12:30:00'', query := Some ''is:unresolved''\<rparr>"
  have s: "sample_fromisoformat ''2024-01-01'' \<noteq> None"
    by (simp add: sample_fromisoformat_date)
  have e: "sample_fromisoformat ''2024-02-01T12:30:00'' \<noteq> None"
    by (simp add: sample_fromisoformat_datetime)
  have f: "(if no_criteria ?a then None
            else Some (join '' '' (fragments sample_fromisoformat sample_isoformat ?a))) =
     Some ''environment:production firstSeen:>2024-01-01T00:00:00Z firstSeen:<2024-02-01T12:30:00Z is:unresolved''"
    by (simp add: no_criteria_def fragments_def args0_def sample_fromisoformat_def
        parse_date_def parse_time_def is_digit_def digit_val_def days_in_month_def
        sample_isoformat_def two_digits_def digit_char_def char_of_def bit_0)
  show ?thesis
    using s e f build_query_composed[of ?a sample_fromisoformat sample_isoformat]
    by (simp add: args0_def)
qed

text \<open>The example of the specification.\<close>

lemma build_query_example:
  "build_query fromisoformat isoformat
     (args0\<lparr>environment := Some ''production'', query := Some ''is:unresolved''\<rparr>) =
   Inr (Some ''environment:production is:unresolved'')"
  by (simp add: build_query_def args0_def)

lemma build_query_bad_date:
  assumes "(truthy (start_at a) \<and> fromisoformat (the (start_at a)) = None) \<or>
           (truthy (end_at a) \<and> fromisoformat (the (end_at a)) = None)"
  shows "build_query fromisoformat isoformat a =
           Inl (ValueError (if truthy (start_at a) \<and> fromisoformat (the (start_at a)) = None
                            then the (start_at a) else the (end_at a)))"
  using assms
  by (auto simp: build_query_def Let_def split: option.splits)

text \<open>A date option that is not set is not parsed.\<close>

lemma build_query_no_dates:
  assumes "\<not> truthy (start_at a)" and "\<not> truthy (end_at a)"
  shows "\<exists>q. build_query fromisoformat isoformat a = Inr q"
  using assms by (simp add: build_query_def Let_def)

text \<open>Once the query is built, \<open>cmd_fetch_issues\<close> issues exactly one request.\<close>

lemma list_issues_log:
  "\<exists>rq. snd (list_issues srv c project_slug period lim srt qry lg) = lg @ [rq]"
proof -
  have "\<And>url ps. \<exists>rq. snd (case get srv c url ps lg of
                             (Inl e, lg') \<Rightarrow> (Inl e, lg')
                           | (Inr response, lg') \<Rightarrow> (response_json response, lg')) = lg @ [rq]"
  proof -
    fix url ps
    show "\<exists>rq. snd (case get srv c url ps lg of
                             (Inl e, lg') \<Rightarrow> (Inl e, lg')
                           | (Inr response, lg') \<Rightarrow> (response_json response, lg')) = lg @ [rq]"
      using snd_get[of srv c url ps lg]
      by (cases "get srv c url ps lg") (auto split: sum.splits)
  qed
  then show ?thesis by (simp add: list_issues_def Let_def)
qed

lemma cmd_fetch_issues_log:
  assumes "build_query fromisoformat isoformat a = Inr q"
  shows "\<exists>rq. snd (cmd_fetch_issues fromisoformat isoformat lower srv a c lg) = lg @ [rq]"
proof -
  let ?st = "if truthy (stats_period a) then the (stats_period a) else ''24h''"
  obtain rq where rq:
    "snd (list_issues srv c (Some (project a)) ?st (limit a) (sort a) q lg) = lg @ [rq]"
    using list_issues_log by blast
  show ?thesis
    using assms rq
    by (cases "list_issues srv c (Some (project a)) ?st (limit a) (sort a) q lg")
       (auto simp: cmd_fetch_issues_def Let_def split: sum.splits)
qed

text \<open>
  C8, as the code has it. When a date option holds a non-empty string that does not
  parse, \<open>cmd_fetch_issues\<close> ends with the \<open>ValueError\<close> of \<open>fromisoformat\<close> and the log
  of requests is unchanged: the failure comes before any network call. A date option
  that is empty is taken as not given: it is not parsed, and when neither date is set
  the request is issued.
\<close>

theorem cmd_fetch_issues_bad_date:
  "((truthy (start_at a) \<and> fromisoformat (the (start_at a)) = None) \<or>
    (truthy (end_at a) \<and> fromisoformat (the (end_at a)) = None) \<longrightarrow>
      cmd_fetch_issues fromisoformat isoformat lower srv a c lg =
        (Inl (ValueError (if truthy (start_at a) \<and> fromisoformat (the (start_at a)) = None
                          then the (start_at a) else the (end_at a))), lg)) \<and>
   (\<not> truthy (start_at a) \<and> \<not> truthy (end_at a) \<longrightarrow>
      (\<exists>rq. snd (cmd_fetch_issues fromisoformat isoformat lower srv a c lg) = lg @ [rq]))"
proof (intro conjI impI)
  assume "(truthy (start_at a) \<and> fromisoformat (the (start_at a)) = None) \<or>
          (truthy (end_at a) \<and> fromisoformat (the (end_at a)) = None)"
  from build_query_bad_date[OF this, of isoformat]
  show "cmd_fetch_issues fromisoformat isoformat lower srv a c lg =
        (Inl (ValueError (if truthy (start_at a) \<and> fromisoformat (the (start_at a)) = None
                          then the (start_at a) else the (end_at a))), lg)"
    by (simp add: cmd_fetch_issues_def)
next
  assume "\<not> truthy (start_at a) \<and> \<not> truthy (end_at a)"
  then obtain q where "build_query fromisoformat isoformat a = Inr q"
    using build_query_no_dates[of a fromisoformat isoformat] by blast
  from cmd_fetch_issues_log[OF this]
  show "\<exists>rq. snd (cmd_fetch_issues fromisoformat isoformat lower srv a c lg) = lg @ [rq]" .
qed

theorem cmd_fetch_issues_bad_date_witness:
  "truthy (end_at (args0\<lparr>end_at := Some ''yesterday''\<rparr>)) \<and>
   sample_fromisoformat (the (end_at (args0\<lparr>end_at := Some ''yesterday''\<rparr>))) = None \<and>
   cmd_fetch_issues sample_fromisoformat sample_isoformat ascii_lower srv_endless
     (args0\<lparr>end_at := Some ''yesterday''\<rparr>) client0 [] = (Inl (ValueError ''yesterday''), [])"
proof -
  have h: "truthy (end_at (args0\<lparr>end_at := Some ''yesterday''\<rparr>)) \<and>
     sample_fromisoformat (the (end_at (args0\<lparr>end_at := Some ''yesterday''\<rparr>))) = None"
    by (simp add: sample_fromisoformat_def)
  show ?thesis
    using h cmd_fetch_issues_bad_date[of "args0\<lparr>end_at := Some ''yesterday''\<rparr>"
        sample_fromisoformat sample_isoformat ascii_lower srv_endless client0 "[]"]
    by (simp add: args0_def)
qed

text \<open>
  C8 as stated fails for a date that is supplied as the empty string: it does not parse,
  yet it is skipped and the request is issued.
\<close>

theorem cmd_fetch_issues_empty_date_counterexample:
  "sample_fromisoformat [] = None \<and>
   cmd_fetch_issues sample_fromisoformat sample_isoformat ascii_lower srv_empty
     (args0\<lparr>start_at := Some []\<rparr>) client0 [] =
     (Inr (JArr []),
      [\<lparr>req_url = ''https://sentry.io/api/0/projects/square-inc/billing-service/issues/'',
        req_headers = [(''Authorization'', ''Bearer secret''),
                       (''Content-Type'', ''application/json'')],
        req_params = Some [(''statsPeriod'', PStr ''24h''), (''limit'', PInt 50),
                           (''sort'', PStr ''date'')]\<rparr>])"
  by (simp add: sample_fromisoformat_def cmd_fetch_issues_def build_query_def args0_def
      list_issues_def get_def srv_empty_def raise_for_status_def response_json_def
      elements_def client0_def SentryClient_def default_base_url_def Let_def)

section \<open>Properties of the local filter\<close>

text \<open>\<open>contains\<close> is the substring relation.\<close>

lemma contains_sublist: "contains a b = sublist a b"
  by (induction b) (auto simp: sublist_Cons_right)

lemma dict_get_JObj_str:
  "str_or_missing kvs k \<Longrightarrow>
   in_lowered lower n (dict_get (JObj kvs) k (JStr [])) =
     Inr (contains n (lower (field_text kvs k)))"
  by (auto simp: str_or_missing_def in_lowered_def field_text_def
      split: option.splits json.splits)

text \<open>
  Where \<open>title\<close> and \<open>culprit\<close> are strings or missing and \<open>metadata\<close> is a dict or
  missing, the test returns, and it is the substring test on the four fields.
\<close>

lemma matches_text_filter_strings:
  assumes "str_or_missing kvs ''title''" "str_or_missing kvs ''culprit''"
    "dict_or_missing kvs ''metadata''"
  shows "matches_text_filter lower (JObj kvs) f =
     Inr (sublist (lower f) (lower (field_text kvs ''title'')) \<or>
          sublist (lower f) (lower (field_text kvs ''culprit'')) \<or>
          sublist (lower f) (lower (metadata_text kvs ''value'')) \<or>
          sublist (lower f) (lower (metadata_text kvs ''type'')))"
proof -
  have m: "dict_get (JObj kvs) ''metadata'' (JObj []) =
             Inr (JObj (case map_of kvs ''metadata'' of Some (JObj m) \<Rightarrow> m | _ \<Rightarrow> []))"
    using assms(3) by (auto simp: dict_or_missing_def split: option.splits json.splits)
  have v: "\<And>k. dict_get (JObj (case map_of kvs ''metadata'' of Some (JObj m) \<Rightarrow> m | _ \<Rightarrow> []))
                 k (JStr []) =
             Inr (case map_of (case map_of kvs ''metadata'' of Some (JObj m) \<Rightarrow> m | _ \<Rightarrow> []) k of
                    None \<Rightarrow> JStr [] | Some v \<Rightarrow> v)"
    by simp
  have t: "\<And>k. str_json (case map_of (case map_of kvs ''metadata'' of
                                          Some (JObj m) \<Rightarrow> m | _ \<Rightarrow> []) k of
                     None \<Rightarrow> JStr [] | Some v \<Rightarrow> v) = metadata_text kvs k"
    by (auto simp: metadata_text_def split: option.splits json.splits)
  show ?thesis
    unfolding matches_text_filter_def Let_def
      dict_get_JObj_str[OF assms(1)] dict_get_JObj_str[OF assms(2)] m v
    by (simp add: t contains_sublist split: bool.splits)
qed

text \<open>Where the test returns on every resource, the filter keeps those that match.\<close>

lemma filter_issues_returns:
  "\<forall>x\<in>set xs. returns lower f x \<Longrightarrow>
   filter_issues lower xs f = Inr (filter (matches lower f) xs)"
  by (induction xs) (auto simp: returns_def matches_def split: sum.splits)

lemma filter_issues_subsequence:
  assumes "\<forall>x\<in>set xs. returns lower f x"
  shows "filter_issues lower xs f = Inr (filter (matches lower f) xs) \<and>
         subseq (filter (matches lower f) xs) xs \<and>
         filter_issues lower (filter (matches lower f) xs) f =
           Inr (filter (matches lower f) xs)"
proof -
  have "\<forall>x\<in>set (filter (matches lower f) xs). returns lower f x" using assms by simp
  from filter_issues_returns[OF this] filter_issues_returns[OF assms] show ?thesis
    by simp
qed

text \<open>The example of the specification.\<close>

lemma filter_issues_example:
  "filter_issues ascii_lower
     [JObj [(''title'', JStr ''Null pointer in Foo'')], JObj [(''title'', JStr ''Timeout'')]]
     ''null'' = Inr [JObj [(''title'', JStr ''Null pointer in Foo'')]]"
  by (simp add: matches_text_filter_def in_lowered_def ascii_lower_def ascii_lower_char_def
      char_of_def bit_0)

text \<open>
  C6. The claim gives a truth value for every resource, a field without text counting
  as the empty string. The code reads a missing \<open>culprit\<close> as the empty string and passes
  the metadata fields through \<open>str\<close>, but calls \<open>lower\<close> on a \<open>culprit\<close> that is present
  and \<open>null\<close>. For the resource below \<open>metadata.value\<close> holds the filter text, so that the
  claim gives true; the code raises \<open>AttributeError\<close> at the culprit test.
\<close>

theorem matches_text_filter_null_culprit:
  "matches_text_filter ascii_lower
     (JObj [(''title'', JStr ''Timeout''), (''culprit'', JNull),
            (''metadata'', JObj [(''value'', JStr ''null pointer'')])])
     ''null'' = Inl AttributeError"
  by (simp add: matches_text_filter_def in_lowered_def ascii_lower_def ascii_lower_char_def
      char_of_def bit_0)

text \<open>
  C10. The claim gives the matching resources for every list. In the list below the
  first resource matches by its title; the second has a \<open>null\<close> culprit, on which the
  test raises, so that the comprehension raises and no list is produced.
\<close>

theorem filter_issues_null_culprit:
  "filter_issues ascii_lower
     [JObj [(''title'', JStr ''Timeout'')],
      JObj [(''title'', JStr ''Null''), (''culprit'', JNull)]]
     ''out'' = Inl AttributeError"
  by (simp add: matches_text_filter_def in_lowered_def ascii_lower_def ascii_lower_char_def
      char_of_def bit_0)

end
